theory Spec2Isabelle
  imports
    Main
    "HOL-Library.AList"
    "HOL-Library.Char_ord"
    "HOL-Library.List_Lexorder"
    "HOL-Library.Multiset"
begin

section \<open>Documents and collections\<close>

text \<open>
  The server (\<^verbatim>\<open>server/index.js\<close>) keeps three collections of documents: users, poems and
  comments. An \<^verbatim>\<open>ObjectId\<close> is modelled as a natural number; a request refers to a document
  by such an id (route parameter, token payload, body field), already in canonical form.
  \<^verbatim>\<open>createdAt\<close> is a number of milliseconds. The numeric fields \<^verbatim>\<open>likes_count\<close> and
  \<^verbatim>\<open>comments_count\<close> hold integers, modelled as \<open>int\<close>; the handlers' own arithmetic on
  \<^verbatim>\<open>likes_count\<close> is the arithmetic of doubles (\<open>to_double\<close> below), \<^verbatim>\<open>comments_count\<close> is
  incremented by the database. The \<^verbatim>\<open>updatedAt\<close> stamp and the version key that every save
  rewrites are left out.
  Fields that several schemas share (\<^verbatim>\<open>author\<close>, \<^verbatim>\<open>content\<close>, \<^verbatim>\<open>createdAt\<close>) keep their
  name in the poem and carry a prefix in the other records.
\<close>

type_synonym oid = nat
type_synonym time = int

record user =
  username :: string
  email :: string
  password :: string
  bio :: string
  avatar_url :: string
  followers :: "oid list"
  following :: "oid list"
  user_createdAt :: time

record poem =
  title :: string
  content :: string
  author :: oid
  category :: string
  tags :: "string list"
  image_url :: string
  likes :: "oid list"
  likes_count :: int
  comments_count :: int
  is_featured :: bool
  createdAt :: time

record comment =
  poem :: oid
  comment_author :: oid
  comment_content :: string
  parent :: "oid option"
  replies :: "oid list"
  comment_createdAt :: time

text \<open>
  A collection is the list of its documents in insertion order, each paired with its
  \<^verbatim>\<open>_id\<close>. Lookup by id takes the first entry with that id.
\<close>

type_synonym 'd collection = "(oid \<times> 'd) list"

record db =
  users :: "user collection"
  poems :: "poem collection"
  comments :: "comment collection"

definition findById :: "'d collection \<Rightarrow> oid \<Rightarrow> 'd option" where
  "findById c i = map_of c i"

text \<open>\<^verbatim>\<open>doc.save()\<close>: replaces the stored document of that id, or appends a new one.\<close>

definition save :: "'d collection \<Rightarrow> oid \<Rightarrow> 'd \<Rightarrow> 'd collection" where
  "save c i d = AList.update i d c"

text \<open>\<^verbatim>\<open>Model.findByIdAndUpdate(id, update)\<close>: no document of that id, no change.\<close>

definition findByIdAndUpdate :: "'d collection \<Rightarrow> oid \<Rightarrow> ('d \<Rightarrow> 'd) \<Rightarrow> 'd collection" where
  "findByIdAndUpdate c i f = (case findById c i of None \<Rightarrow> c | Some d \<Rightarrow> save c i (f d))"

definition findByIdAndDelete :: "'d collection \<Rightarrow> oid \<Rightarrow> 'd collection" where
  "findByIdAndDelete c i = AList.delete i c"

definition deleteMany :: "('d \<Rightarrow> bool) \<Rightarrow> 'd collection \<Rightarrow> 'd collection" where
  "deleteMany P c = filter (\<lambda>(i, d). \<not> P d) c"

definition find_docs :: "('d \<Rightarrow> bool) \<Rightarrow> 'd collection \<Rightarrow> 'd collection" where
  "find_docs P c = filter (\<lambda>(i, d). P d) c"

text \<open>Mongoose array methods on a list of ids.\<close>

definition array_includes :: "oid list \<Rightarrow> oid \<Rightarrow> bool" where
  "array_includes xs x = (x \<in> set xs)"

definition push :: "oid list \<Rightarrow> oid \<Rightarrow> oid list" where
  "push xs x = xs @ [x]"

definition pull :: "oid list \<Rightarrow> oid \<Rightarrow> oid list" where
  "pull xs x = removeAll x xs"

text \<open>
  A JavaScript number is a double. \<open>to_double n\<close> is the double nearest to the integer \<open>n\<close>,
  ties to the even significand: every integer up to \<open>2 ^ 53\<close> in absolute value is a double,
  beyond that the low bits are rounded away. (Integers beyond the range of doubles, which
  no sum of the handlers reaches from a double, are not treated apart.)
\<close>

fun bit_length :: "nat \<Rightarrow> nat" where
  "bit_length n = (if n = 0 then 0 else Suc (bit_length (n div 2)))"

declare bit_length.simps [simp del]

definition to_double :: "int \<Rightarrow> int" where
  "to_double n =
     (if \<bar>n\<bar> \<le> 2 ^ 53 then n
      else
        let e = bit_length (nat \<bar>n\<bar>) - 53;
            q = \<bar>n\<bar> div 2 ^ e;
            r = \<bar>n\<bar> mod 2 ^ e;
            h = 2 ^ (e - 1);
            q' = (if h < r \<or> (r = h \<and> odd q) then q + 1 else q)
        in sgn n * q' * 2 ^ e)"

text \<open>
  \<^verbatim>\<open>poem.save()\<close> of a loaded poem validates the document again and sends it to the
  database: it throws when a required string is empty, and when the document exceeds the
  16 megabytes that the database accepts. Of the size only the \<^verbatim>\<open>likes\<close> array is counted
  here, 12 bytes an id, so the save of a poem with more than \<open>16777216 div 12\<close> likes
  throws.
\<close>

definition max_likes :: nat where
  "max_likes = 16777216 div 12"

definition poem_saves :: "poem \<Rightarrow> bool" where
  "poem_saves p =
     (title p \<noteq> [] \<and> content p \<noteq> [] \<and> category p \<noteq> [] \<and> length (likes p) \<le> max_likes)"

section \<open>Responses\<close>

text \<open>
  A handler answers with a status and a JSON body. An exception caught by the handler's
  \<^verbatim>\<open>catch\<close> is answered with status 500 and the exception's message; the model names the
  exception instead of its text.
\<close>

datatype thrown = TypeError | ValidationError | DuplicateKey | SyntaxError | BadValue | SaveError

record populated_comment =
  pc_id :: oid
  pc_comment :: comment
  pc_replies :: "(oid \<times> comment) list"

datatype body =
    Error string
  | Thrown thrown
  | Message string
  | Registered oid user
  | LikeResult bool int
  | FollowResult bool
  | PoemDoc oid poem
  | PoemDocs "(oid \<times> poem) list"
  | CommentDoc oid comment
  | CommentDocs "populated_comment list"

type_synonym response = "nat \<times> body"

section \<open>Likes\<close>

text \<open>
  \<^verbatim>\<open>POST /api/poems/:id/like\<close>, for the poem id \<open>i\<close> of the route and the user id \<open>u\<close> of
  the verified token. \<open>toggle_like\<close> is the branch on \<^verbatim>\<open>isLiked\<close>; a save that throws is
  answered with status 500 and stores nothing.
\<close>

definition toggle_like :: "oid \<Rightarrow> poem \<Rightarrow> poem" where
  "toggle_like u p =
     (if array_includes (likes p) u
      then p\<lparr>likes := pull (likes p) u,
             likes_count := max 0 (to_double (likes_count p - 1))\<rparr>
      else p\<lparr>likes := push (likes p) u, likes_count := to_double (likes_count p + 1)\<rparr>)"

definition post_poem_like :: "db \<Rightarrow> oid \<Rightarrow> oid \<Rightarrow> response \<times> db" where
  "post_poem_like d i u =
     (case findById (poems d) i of
        None \<Rightarrow> ((404, Error ''Poem not found''), d)
      | Some p \<Rightarrow>
          let isLiked = array_includes (likes p) u;
              p' = toggle_like u p
          in if \<not> poem_saves p' then ((500, Thrown SaveError), d)
             else ((200, LikeResult (\<not> isLiked) (likes_count p')),
                   d\<lparr>poems := save (poems d) i p'\<rparr>))"

text \<open>A sequence of like requests, each a poem id and a user id, served one after another.\<close>

fun like_requests :: "db \<Rightarrow> (oid \<times> oid) list \<Rightarrow> db" where
  "like_requests d [] = d"
| "like_requests d ((i, u) # rs) = like_requests (snd (post_poem_like d i u)) rs"

definition likes_consistent :: "poem \<Rightarrow> bool" where
  "likes_consistent p = (likes_count p = int (card (set (likes p))))"

text \<open>The poem that is stored after one like request of user \<open>u\<close> on the stored poem \<open>p\<close>.\<close>

definition like_stored :: "oid \<Rightarrow> poem \<Rightarrow> poem" where
  "like_stored u p = (if poem_saves (toggle_like u p) then toggle_like u p else p)"

section \<open>Follows\<close>

text \<open>
  The target of a follow request is the string of the route. The handler compares that
  string itself, twice, with ids that the server prints, so the model keeps its spelling:
  \<open>Canonical i\<close> is the string that the server prints for the id \<open>i\<close>, 24 hex digits in
  lower case, as in the payload of a token; \<open>Respelled i\<close> is another string that the
  database casts to the id \<open>i\<close>, the same digits with a letter in upper case (an id has
  such a spelling as soon as one of its digits is a letter). A string that casts to no id
  is not modelled.
\<close>

datatype route_id = Canonical oid | Respelled oid

fun cast :: "route_id \<Rightarrow> oid" where
  "cast (Canonical i) = i"
| "cast (Respelled i) = i"

text \<open>
  \<^verbatim>\<open>array.includes(string)\<close> of a Mongoose array of ids compares the string with the
  printed form of each element.
\<close>

definition includes_string :: "oid list \<Rightarrow> route_id \<Rightarrow> bool" where
  "includes_string xs t = list_ex (\<lambda>x. Canonical x = t) xs"

text \<open>
  \<^verbatim>\<open>POST /api/users/:id/follow\<close>, for the target string \<open>t\<close> of the route and the user id \<open>u\<close>
  of the verified token. Only \<^verbatim>\<open>targetUser\<close> is checked for \<^verbatim>\<open>null\<close>; reading
  \<^verbatim>\<open>currentUser.following\<close> of a missing current user throws. The two documents are saved
  one after the other, the current user first, and each save writes the array that the
  handler changed in that document. The required strings of a user never change after
  registration, so these saves are taken to pass validation.
\<close>

definition post_user_follow :: "db \<Rightarrow> route_id \<Rightarrow> oid \<Rightarrow> response \<times> db" where
  "post_user_follow d t u =
     (if t = Canonical u then ((400, Error ''Cannot follow yourself''), d)
      else
        (case findById (users d) (cast t) of
           None \<Rightarrow> ((404, Error ''User not found''), d)
         | Some targetUser \<Rightarrow>
             (case findById (users d) u of
                None \<Rightarrow> ((500, Thrown TypeError), d)
              | Some currentUser \<Rightarrow>
                  let isFollowing = includes_string (following currentUser) t;
                      following' =
                        (if isFollowing then pull (following currentUser) (cast t)
                         else push (following currentUser) (cast t));
                      followers' =
                        (if isFollowing then pull (followers targetUser) u
                         else push (followers targetUser) u);
                      saved = findByIdAndUpdate (users d) u (\<lambda>x. x\<lparr>following := following'\<rparr>)
                  in ((200, FollowResult (\<not> isFollowing)),
                      d\<lparr>users := findByIdAndUpdate saved (cast t)
                                    (\<lambda>x. x\<lparr>followers := followers'\<rparr>)\<rparr>))))"

section \<open>Poems\<close>

text \<open>
  A body field of a request is \<open>None\<close> when it is absent and \<open>Some s\<close> when it is the string
  \<open>s\<close>. JavaScript treats the absent field and the empty string as false.
\<close>

definition truthy :: "string option \<Rightarrow> string option" where
  "truthy x = (case x of None \<Rightarrow> None | Some s \<Rightarrow> if s = [] then None else Some s)"

text \<open>\<^verbatim>\<open>x || y\<close> for an optional string \<open>x\<close> and a string \<open>y\<close>.\<close>

definition or_else :: "string option \<Rightarrow> string \<Rightarrow> string" where
  "or_else x y = (case truthy x of None \<Rightarrow> y | Some s \<Rightarrow> s)"

text \<open>
  \<^verbatim>\<open>tags.split(',').map(tag => tag.trim())\<close>. Strings are lists of bytes here, so \<open>trim\<close>
  strips the white space of ASCII; the white space that JavaScript knows outside ASCII
  stays.
\<close>

fun split_on :: "char \<Rightarrow> string \<Rightarrow> string list" where
  "split_on c [] = [[]]"
| "split_on c (x # xs) =
     (if x = c then [] # split_on c xs
      else (case split_on c xs of [] \<Rightarrow> [[x]] | y # ys \<Rightarrow> (x # y) # ys))"

definition is_space :: "char \<Rightarrow> bool" where
  "is_space c = ((of_char c :: nat) \<in> {9, 10, 11, 12, 13, 32})"

definition trim :: "string \<Rightarrow> string" where
  "trim s = rev (dropWhile is_space (rev (dropWhile is_space s)))"

definition parse_tags :: "string \<Rightarrow> string list" where
  "parse_tags s = map trim (split_on (CHR '','') s)"



text \<open>\<^verbatim>\<open>PUT /api/poems/:id\<close>.\<close>

definition put_poem ::
  "db \<Rightarrow> oid \<Rightarrow> oid \<Rightarrow> string option \<Rightarrow> string option \<Rightarrow> string option \<Rightarrow> string option \<Rightarrow>
   response \<times> db" where
  "put_poem d i u title_b content_b category_b tags_b =
     (case findById (poems d) i of
        None \<Rightarrow> ((404, Error ''Poem not found''), d)
      | Some p \<Rightarrow>
          if author p \<noteq> u then ((403, Error ''Not authorized''), d)
          else
            let p' = p\<lparr>title := or_else title_b (title p),
                       content := or_else content_b (content p),
                       category := or_else category_b (category p),
                       tags := (case truthy tags_b of None \<Rightarrow> tags p | Some s \<Rightarrow> parse_tags s)\<rparr>
            in if \<not> poem_saves p' then ((500, Thrown SaveError), d)
               else ((200, PoemDoc i p'), d\<lparr>poems := save (poems d) i p'\<rparr>))"

text \<open>\<^verbatim>\<open>DELETE /api/poems/:id\<close>.\<close>

definition delete_poem :: "db \<Rightarrow> oid \<Rightarrow> oid \<Rightarrow> response \<times> db" where
  "delete_poem d i u =
     (case findById (poems d) i of
        None \<Rightarrow> ((404, Error ''Poem not found''), d)
      | Some p \<Rightarrow>
          if author p \<noteq> u then ((403, Error ''Not authorized''), d)
          else ((200, Message ''Poem deleted successfully''),
                d\<lparr>poems := findByIdAndDelete (poems d) i,
                  comments := deleteMany (\<lambda>c. poem c = i) (comments d)\<rparr>))"

section \<open>Comments\<close>


text \<open>
  \<^verbatim>\<open>GET /api/poems/:id/comments\<close>. \<open>populate\<close> replaces the ids of \<^verbatim>\<open>replies\<close> by the
  documents they name, in the order of the ids; an id that names no document is dropped.
  The replies of a reply stay ids. The database leaves the order of documents of equal
  sort key open; the model keeps them in the order of the collection. Populating \<^verbatim>\<open>author\<close> only adds the author's name to the answer and is left
  out, here and in the other handlers.
\<close>

definition populate :: "comment collection \<Rightarrow> oid list \<Rightarrow> (oid \<times> comment) list" where
  "populate cs ids = List.map_filter (\<lambda>r. map_option (Pair r) (findById cs r)) ids"

definition get_poem_comments :: "db \<Rightarrow> oid \<Rightarrow> response" where
  "get_poem_comments d i =
     (200, CommentDocs
        (map (\<lambda>(k, c). \<lparr>pc_id = k, pc_comment = c, pc_replies = populate (comments d) (replies c)\<rparr>)
           (sort_key (\<lambda>(k, c). comment_createdAt c)
              (find_docs (\<lambda>c. poem c = i \<and> parent c = None) (comments d)))))"

section \<open>Listing and searching poems\<close>






definition lower :: "char \<Rightarrow> char" where
  "lower c = (if 65 \<le> (of_char c :: nat) \<and> (of_char c :: nat) \<le> 90
              then char_of ((of_char c :: nat) + 32) else c)"













text \<open>
  What the specification says of the search: the text contains the search string, case
  ignored.
\<close>

fun starts_with_ci :: "string \<Rightarrow> string \<Rightarrow> bool" where
  "starts_with_ci [] t = True"
| "starts_with_ci (x # s) [] = False"
| "starts_with_ci (x # s) (y # t) = (lower x = lower y \<and> starts_with_ci s t)"

fun contains_ci :: "string \<Rightarrow> string \<Rightarrow> bool" where
  "contains_ci s [] = starts_with_ci s []"
| "contains_ci s (y # t) = (starts_with_ci s (y # t) \<or> contains_ci s t)"

section \<open>Accounts, tokens and the server as a whole\<close>









section \<open>Sample documents\<close>

definition sample_poem :: poem where
  "sample_poem =
     \<lparr>title = ''Dawn'', content = ''The light returns'', author = 1, category = ''nature'',
      tags = [''sun'', ''morning''], image_url = [], likes = [], likes_count = 0,
      comments_count = 0, is_featured = False, createdAt = 1000\<rparr>"

definition sample_user :: "string \<Rightarrow> user" where
  "sample_user name =
     \<lparr>username = name, email = name @ ''@example.org'', password = ''hash'', bio = [],
      avatar_url = [], followers = [], following = [], user_createdAt = 0\<rparr>"

definition sample_comment :: "oid \<Rightarrow> oid option \<Rightarrow> oid list \<Rightarrow> time \<Rightarrow> comment" where
  "sample_comment i par rs t =
     \<lparr>poem = i, comment_author = 1, comment_content = ''Lovely'', parent = par, replies = rs,
      comment_createdAt = t\<rparr>"



definition sample_db :: db where
  "sample_db =
     \<lparr>users = [(1, sample_user ''ann''), (2, sample_user ''bob'')],
      poems = [(10, sample_poem)],
      comments = []\<rparr>"

definition sample_thread :: "comment collection" where
  "sample_thread =
     [(30, sample_comment 10 None [] 9), (20, sample_comment 10 None [21] 5),
      (21, sample_comment 10 (Some 20) [] 6), (22, sample_comment 11 None [] 7)]"

section \<open>Basic facts about collections\<close>

lemma findById_save:
  "findById (save c i d) j = (if j = i then Some d else findById c j)"
  by (simp add: findById_def save_def update_conv')

lemma findById_findByIdAndUpdate:
  "findById (findByIdAndUpdate c i f) j =
     (if j = i then map_option f (findById c i) else findById c j)"
  by (simp add: findByIdAndUpdate_def findById_save split: option.split)

lemma findById_findByIdAndDelete:
  "findById (findByIdAndDelete c i) j = (if j = i then None else findById c j)"
  by (simp add: findById_def findByIdAndDelete_def delete_conv')

section \<open>Likes: the counter and the set\<close>

lemma to_double_small: "\<bar>n\<bar> \<le> 2 ^ 53 \<Longrightarrow> to_double n = n"
  by (simp add: to_double_def)

lemma max_likes_small: "int max_likes < 2 ^ 53"
  by (simp add: max_likes_def)

lemma card_likes_small:
  assumes "length xs \<le> max_likes"
  shows "int (card (set xs)) < 2 ^ 53"
proof -
  have "card (set xs) \<le> max_likes"
    using card_length [of xs] assms by simp
  then show ?thesis
    using max_likes_small by simp
qed

lemma toggle_like_consistent:
  assumes "likes_consistent p" and "poem_saves (toggle_like u p)"
  shows "likes_consistent (toggle_like u p)"
proof (cases "u \<in> set (likes p)")
  case True
  then have c: "card (set (likes p) - {u}) = card (set (likes p)) - 1"
    by simp
  from True have pos: "0 < card (set (likes p))"
    by (auto simp: card_gt_0_iff)
  have "length (removeAll u (likes p)) \<le> max_likes"
    using assms(2) True by (simp add: poem_saves_def toggle_like_def array_includes_def pull_def)
  then have "int (card (set (removeAll u (likes p)))) < 2 ^ 53"
    by (rule card_likes_small)
  then have "\<bar>int (card (set (likes p))) - 1\<bar> \<le> 2 ^ 53"
    using c pos by simp
  then have "to_double (int (card (set (likes p))) - 1) = int (card (set (likes p))) - 1"
    by (rule to_double_small)
  then show ?thesis
    using assms(1) True c pos
    by (simp add: likes_consistent_def toggle_like_def array_includes_def pull_def)
next
  case False
  have "length (likes p @ [u]) \<le> max_likes"
    using assms(2) False by (simp add: poem_saves_def toggle_like_def array_includes_def push_def)
  then have "int (card (set (likes p @ [u]))) < 2 ^ 53"
    by (rule card_likes_small)
  then have "\<bar>int (card (set (likes p))) + 1\<bar> \<le> 2 ^ 53"
    using False by simp
  then have "to_double (int (card (set (likes p))) + 1) = int (card (set (likes p))) + 1"
    by (rule to_double_small)
  then show ?thesis
    using assms(1) False
    by (simp add: likes_consistent_def toggle_like_def array_includes_def push_def)
qed

lemma like_stored_consistent: "likes_consistent p \<Longrightarrow> likes_consistent (like_stored u p)"
  by (simp add: like_stored_def toggle_like_consistent)

text \<open>
  On an array without duplicates the number of distinct users is the length of the array,
  and a toggle keeps the array free of duplicates.
\<close>

lemma likes_consistent_length:
  "distinct (likes p) \<Longrightarrow> likes_consistent p \<longleftrightarrow> likes_count p = int (length (likes p))"
  by (simp add: likes_consistent_def distinct_card)

lemma toggle_like_distinct:
  "distinct (likes p) \<Longrightarrow> distinct (likes (toggle_like u p))"
  by (simp add: toggle_like_def array_includes_def push_def pull_def distinct_removeAll)

lemma post_poem_like_poem:
  "findById (poems (snd (post_poem_like d i u))) j =
     (if j = i then map_option (like_stored u) (findById (poems d) i)
      else findById (poems d) j)"
  by (simp add: post_poem_like_def Let_def findById_save like_stored_def split: option.split)

text \<open>
  C1. If a poem's \<^verbatim>\<open>likes_count\<close> equals the number of distinct users in its \<^verbatim>\<open>likes\<close>,
  then after any sequence of like requests, by any users and on any poems, the poem is
  still stored and its \<^verbatim>\<open>likes_count\<close> still equals the number of distinct users in its
  \<^verbatim>\<open>likes\<close>.
\<close>

theorem likes_count_invariant:
  assumes "findById (poems d) i = Some p" and "likes_consistent p"
  shows "\<exists>p'. findById (poems (like_requests d rs)) i = Some p' \<and> likes_consistent p'"
  using assms
proof (induction rs arbitrary: d p)
  case Nil
  then show ?case by simp
next
  case (Cons r rs)
  obtain j u where r: "r = (j, u)" by (cases r)
  let ?d = "snd (post_poem_like d j u)"
  have "\<exists>q. findById (poems ?d) i = Some q \<and> likes_consistent q"
    using Cons.prems by (auto simp: post_poem_like_poem like_stored_consistent)
  then obtain q where "findById (poems ?d) i = Some q" and "likes_consistent q"
    by blast
  then show ?case
    using Cons.IH [of ?d q] by (simp add: r)
qed

theorem likes_count_invariant_witness:
  "findById (poems sample_db) 10 = Some sample_poem \<and> likes_consistent sample_poem \<and>
   (\<exists>p'. findById (poems (like_requests sample_db [(10, 1), (10, 2), (10, 1)])) 10 = Some p' \<and>
         likes_consistent p')"
proof -
  have a: "findById (poems sample_db) 10 = Some sample_poem"
    by (simp add: sample_db_def findById_def)
  have b: "likes_consistent sample_poem"
    by (simp add: likes_consistent_def sample_poem_def)
  show ?thesis
    using a b likes_count_invariant [OF a b] by blast
qed

section \<open>Likes: toggling twice\<close>














section \<open>Follows: duality, self-follow, following twice\<close>

lemma includes_string_Canonical [simp]:
  "includes_string xs (Canonical i) = array_includes xs i"
  by (auto simp: includes_string_def array_includes_def list_ex_iff)

lemma includes_string_Respelled [simp]: "includes_string xs (Respelled i) = False"
  by (simp add: includes_string_def list_ex_iff)

lemma post_user_follow_users:
  "findById (users (snd (post_user_follow d t u))) a =
     (case (findById (users d) (cast t), findById (users d) u) of
        (Some tu, Some cu) \<Rightarrow>
          if t = Canonical u then findById (users d) a
          else
            map_option
              (\<lambda>x. (if a = cast t
                     then (\<lambda>y. y\<lparr>followers :=
                             (if includes_string (following cu) t then pull (followers tu) u
                              else push (followers tu) u)\<rparr>)
                     else id)
                    ((if a = u
                      then (\<lambda>y. y\<lparr>following :=
                              (if includes_string (following cu) t then pull (following cu) (cast t)
                               else push (following cu) (cast t))\<rparr>)
                      else id) x))
              (findById (users d) a)
      | _ \<Rightarrow> findById (users d) a)"
  by (auto simp: post_user_follow_def Let_def findById_findByIdAndUpdate option.map_ident
      option.map_comp comp_def split: option.split)

text \<open>
  C3. For any two users \<open>a\<close> and \<open>b\<close>, if \<open>a\<close> is in the followers of \<open>b\<close> exactly when \<open>b\<close> is
  in the following of \<open>a\<close>, then the same holds after a follow request, whoever sends it,
  whomever it targets and however it spells the target. Both users are still stored.
\<close>

theorem follow_keeps_dual:
  assumes "findById (users d) a = Some ua" and "findById (users d) b = Some ub"
    and "array_includes (followers ub) a \<longleftrightarrow> array_includes (following ua) b"
  shows "\<exists>ua' ub'. findById (users (snd (post_user_follow d t u))) a = Some ua' \<and>
           findById (users (snd (post_user_follow d t u))) b = Some ub' \<and>
           (array_includes (followers ub') a \<longleftrightarrow> array_includes (following ua') b)"
proof (cases t)
  case (Canonical i)
  then show ?thesis
    using assms
    by (auto simp: post_user_follow_users array_includes_def push_def pull_def
        split: option.split)
next
  case (Respelled i)
  then show ?thesis
    using assms
    by (auto simp: post_user_follow_users array_includes_def push_def pull_def
        split: option.split)
qed

lemma sample_users:
  "findById (users sample_db) 1 = Some (sample_user ''ann'')"
  "findById (users sample_db) 2 = Some (sample_user ''bob'')"
  by (simp_all add: sample_db_def findById_def)

theorem follow_keeps_dual_witness:
  "findById (users sample_db) 1 = Some (sample_user ''ann'') \<and>
   findById (users sample_db) 2 = Some (sample_user ''bob'') \<and>
   (array_includes (followers (sample_user ''bob'')) 1 \<longleftrightarrow>
    array_includes (following (sample_user ''ann'')) 2) \<and>
   (\<exists>ua' ub'. findById (users (snd (post_user_follow sample_db (Canonical 2) 1))) 1 = Some ua' \<and>
      findById (users (snd (post_user_follow sample_db (Canonical 2) 1))) 2 = Some ub' \<and>
      (array_includes (followers ub') 1 \<longleftrightarrow> array_includes (following ua') 2))"
proof -
  have c: "array_includes (followers (sample_user ''bob'')) 1 \<longleftrightarrow>
      array_includes (following (sample_user ''ann'')) 2"
    by (simp add: sample_user_def array_includes_def)
  show ?thesis
    using sample_users c follow_keeps_dual [OF sample_users c, of "Canonical 2" 1] by blast
qed

text \<open>
  A follow request that spells the sender's own id as the server prints it is answered
  with status 400 and the message \<^verbatim>\<open>Cannot follow yourself\<close>, and changes nothing.
\<close>

lemma self_follow_canonical:
  "post_user_follow d (Canonical u) u = ((400, Error ''Cannot follow yourself''), d)"
  by (simp add: post_user_follow_def)

text \<open>
  C4, as the code has it. The guard compares the string of the route with the printed id
  of the token. A request that spells the sender's own id with a letter in upper case
  passes the guard: it is answered with status 200 and \<^verbatim>\<open>following: true\<close>, and the sender
  is appended to its own followers and to its own following.
\<close>

theorem self_follow_respelled:
  assumes "findById (users d) u = Some x"
  shows "fst (post_user_follow d (Respelled u) u) = (200, FollowResult True) \<and>
     findById (users (snd (post_user_follow d (Respelled u) u))) u =
       Some (x\<lparr>followers := followers x @ [u], following := following x @ [u]\<rparr>)"
  using assms
  by (simp add: post_user_follow_users) (simp add: post_user_follow_def Let_def push_def)

theorem self_follow_respelled_witness:
  "findById (users sample_db) 1 = Some (sample_user ''ann'') \<and>
   cast (Respelled 1) = 1 \<and>
   fst (post_user_follow sample_db (Respelled 1) 1) = (200, FollowResult True) \<and>
   map_option following (findById (users (snd (post_user_follow sample_db (Respelled 1) 1))) 1) =
     Some [1] \<and>
   map_option followers (findById (users (snd (post_user_follow sample_db (Respelled 1) 1))) 1) =
     Some [1]"
proof -
  have f: "following (sample_user ''ann'') = []" "followers (sample_user ''ann'') = []"
    by (simp_all add: sample_user_def)
  show ?thesis
    using sample_users(1) f self_follow_respelled [OF sample_users(1)] by simp
qed

text \<open>
  C5, amended. For distinct stored users \<open>u\<close> and \<open>t\<close> where \<open>u\<close> does not follow \<open>t\<close>, and
  requests that spell \<open>t\<close> as the server prints it: the first follow request answers
  \<^verbatim>\<open>following: true\<close> and leaves \<open>u\<close> following \<open>t\<close>; the second answers \<^verbatim>\<open>following: false\<close>
  and undoes the first, so that after two requests \<open>u\<close> does not follow \<open>t\<close>, as before the
  first, and the following list of \<open>u\<close> is what it was. Two requests are equivalent to
  none, not to one.
\<close>

theorem follow_twice:
  assumes "t \<noteq> u" and "findById (users d) u = Some cu" and "findById (users d) t = Some tu"
    and "\<not> array_includes (following cu) t"
  shows "fst (post_user_follow d (Canonical t) u) = (200, FollowResult True) \<and>
     (\<exists>cu1. findById (users (snd (post_user_follow d (Canonical t) u))) u = Some cu1 \<and>
        array_includes (following cu1) t) \<and>
     fst (post_user_follow (snd (post_user_follow d (Canonical t) u)) (Canonical t) u) =
       (200, FollowResult False) \<and>
     (\<exists>cu2. findById (users (snd (post_user_follow (snd (post_user_follow d (Canonical t) u))
               (Canonical t) u))) u = Some cu2 \<and>
        \<not> array_includes (following cu2) t \<and> following cu2 = following cu) \<and>
     (\<exists>tu1. findById (users (snd (post_user_follow d (Canonical t) u))) t = Some tu1 \<and>
        array_includes (followers tu1) u) \<and>
     (\<exists>tu2. findById (users (snd (post_user_follow (snd (post_user_follow d (Canonical t) u))
               (Canonical t) u))) t = Some tu2 \<and>
        \<not> array_includes (followers tu2) u)"
proof -
  let ?d1 = "snd (post_user_follow d (Canonical t) u)"
  let ?d2 = "snd (post_user_follow ?d1 (Canonical t) u)"
  let ?cu1 = "cu\<lparr>following := push (following cu) t\<rparr>"
  let ?tu1 = "tu\<lparr>followers := push (followers tu) u\<rparr>"
  have r1: "fst (post_user_follow d (Canonical t) u) = (200, FollowResult True)"
    using assms by (simp add: post_user_follow_def Let_def)
  have u1: "findById (users ?d1) u = Some ?cu1"
    using assms by (simp add: post_user_follow_users)
  have t1: "findById (users ?d1) t = Some ?tu1"
    using assms by (simp add: post_user_follow_users)
  have in1: "array_includes (following ?cu1) t" and in1': "array_includes (followers ?tu1) u"
    by (simp_all add: array_includes_def push_def)
  have r2: "fst (post_user_follow ?d1 (Canonical t) u) = (200, FollowResult False)"
    using assms(1) t1 u1 in1 by (simp add: post_user_follow_def Let_def)
  have u2: "findById (users ?d2) u = Some (?cu1\<lparr>following := pull (following ?cu1) t\<rparr>)"
    using assms(1) in1 by (simp add: post_user_follow_users [of ?d1] t1 u1)
  have t2: "findById (users ?d2) t = Some (?tu1\<lparr>followers := pull (followers ?tu1) u\<rparr>)"
    using assms(1) in1 by (simp add: post_user_follow_users [of ?d1] t1 u1)
  have undone: "pull (following ?cu1) t = following cu"
    using assms(4) by (simp add: pull_def push_def array_includes_def)
  have out2: "\<not> array_includes (followers (?tu1\<lparr>followers := pull (followers ?tu1) u\<rparr>)) u"
    by (simp add: array_includes_def pull_def)
  show ?thesis
    using r1 u1 in1 r2 u2 undone assms(4) t1 in1' t2 out2 by simp
qed

theorem follow_twice_witness:
  "(2::nat) \<noteq> 1 \<and> findById (users sample_db) 1 = Some (sample_user ''ann'') \<and>
   findById (users sample_db) 2 = Some (sample_user ''bob'') \<and>
   \<not> array_includes (following (sample_user ''ann'')) 2 \<and>
   fst (post_user_follow sample_db (Canonical 2) 1) = (200, FollowResult True) \<and>
   fst (post_user_follow (snd (post_user_follow sample_db (Canonical 2) 1)) (Canonical 2) 1) =
     (200, FollowResult False)"
proof -
  have n: "(2::nat) \<noteq> 1" by simp
  have f: "\<not> array_includes (following (sample_user ''ann'')) 2"
    by (simp add: sample_user_def array_includes_def)
  show ?thesis
    using n f sample_users follow_twice [OF n sample_users f] by blast
qed

text \<open>
  The claim as it was stated, two requests leaving the relation as one request leaves it,
  fails for the sample users 1 and 2: after one request user 1 follows user 2, after two
  requests user 1 follows nobody.
\<close>

theorem follow_twice_counterexample:
  "map_option following
     (findById (users (snd (post_user_follow sample_db (Canonical 2) 1))) 1) = Some [2] \<and>
   map_option following
     (findById (users (snd (post_user_follow (snd (post_user_follow sample_db (Canonical 2) 1))
        (Canonical 2) 1))) 1) = Some []"
  by (simp add: post_user_follow_def findById_def findByIdAndUpdate_def save_def sample_db_def
      sample_user_def array_includes_def push_def pull_def Let_def)

section \<open>Deleting a poem\<close>

lemma findByIdAndDelete_keys: "i \<notin> fst ` set (findByIdAndDelete c i)"
  by (simp add: findByIdAndDelete_def delete_notin_dom)

text \<open>
  C6. When the author deletes a stored poem, the request succeeds, the poem is gone, and
  no comment whose \<^verbatim>\<open>poem\<close> field is the poem's id remains, top-level comment or reply; the
  comments of other poems are all kept, in their order.
\<close>

theorem delete_poem_cascades:
  assumes "findById (poems d) i = Some p" and "author p = u"
  shows "fst (delete_poem d i u) = (200, Message ''Poem deleted successfully'') \<and>
     findById (poems (snd (delete_poem d i u))) i = None \<and>
     i \<notin> fst ` set (poems (snd (delete_poem d i u))) \<and>
     (\<forall>(k, c) \<in> set (comments (snd (delete_poem d i u))). poem c \<noteq> i) \<and>
     comments (snd (delete_poem d i u)) = filter (\<lambda>(k, c). poem c \<noteq> i) (comments d)"
  using assms
  by (auto simp: delete_poem_def findById_findByIdAndDelete deleteMany_def
      findByIdAndDelete_keys)

theorem delete_poem_cascades_witness:
  "findById (poems (sample_db\<lparr>comments := sample_thread\<rparr>)) 10 = Some sample_poem \<and>
   author sample_poem = 1 \<and>
   comments (snd (delete_poem (sample_db\<lparr>comments := sample_thread\<rparr>) 10 1)) =
     [(22, sample_comment 11 None [] 7)]"
proof -
  have a: "findById (poems (sample_db\<lparr>comments := sample_thread\<rparr>)) 10 = Some sample_poem"
    by (simp add: sample_db_def findById_def)
  have b: "author sample_poem = 1"
    by (simp add: sample_poem_def)
  have c: "filter (\<lambda>(k, c). poem c \<noteq> 10) (comments (sample_db\<lparr>comments := sample_thread\<rparr>)) =
      [(22, sample_comment 11 None [] 7)]"
    by (simp add: sample_thread_def sample_comment_def)
  show ?thesis
    using a b c delete_poem_cascades [OF a b] by simp
qed

section \<open>Editing a poem\<close>

text \<open>
  C10. A successful edit is an edit of a stored poem by its author. It leaves the fields
  \<^verbatim>\<open>author\<close>, \<^verbatim>\<open>likes\<close>, \<^verbatim>\<open>likes_count\<close>, \<^verbatim>\<open>comments_count\<close>, \<^verbatim>\<open>is_featured\<close>, \<^verbatim>\<open>image_url\<close>
  and \<^verbatim>\<open>createdAt\<close> as they were, and each of \<^verbatim>\<open>title\<close>, \<^verbatim>\<open>content\<close> and \<^verbatim>\<open>category\<close> keeps
  its previous value when the body leaves it out or gives the empty string.
\<close>

theorem put_poem_frame:
  assumes "fst (fst (put_poem d i u title_b content_b category_b tags_b)) = 200"
  shows "\<exists>p p'. findById (poems d) i = Some p \<and> author p = u \<and>
     fst (put_poem d i u title_b content_b category_b tags_b) = (200, PoemDoc i p') \<and>
     findById (poems (snd (put_poem d i u title_b content_b category_b tags_b))) i = Some p' \<and>
     author p' = author p \<and> likes p' = likes p \<and> likes_count p' = likes_count p \<and>
     comments_count p' = comments_count p \<and> is_featured p' = is_featured p \<and>
     image_url p' = image_url p \<and> createdAt p' = createdAt p \<and>
     (title_b = None \<or> title_b = Some [] \<longrightarrow> title p' = title p) \<and>
     (content_b = None \<or> content_b = Some [] \<longrightarrow> content p' = content p) \<and>
     (category_b = None \<or> category_b = Some [] \<longrightarrow> category p' = category p)"
  using assms
  by (auto simp: put_poem_def Let_def findById_save or_else_def truthy_def
      split: option.splits if_splits)

theorem put_poem_frame_witness:
  "fst (fst (put_poem sample_db 10 1 (Some []) None (Some ''dawn'') None)) = 200 \<and>
   fst (put_poem sample_db 10 1 (Some []) None (Some ''dawn'') None) =
     (200, PoemDoc 10 (sample_poem\<lparr>category := ''dawn''\<rparr>))"
proof -
  have a: "fst (fst (put_poem sample_db 10 1 (Some []) None (Some ''dawn'') None)) = 200"
    by (simp add: put_poem_def sample_db_def sample_poem_def findById_def Let_def
        or_else_def truthy_def poem_saves_def max_likes_def)
  have b: "fst (put_poem sample_db 10 1 (Some []) None (Some ''dawn'') None) =
     (200, PoemDoc 10 (sample_poem\<lparr>category := ''dawn''\<rparr>))"
    by (simp add: put_poem_def sample_db_def sample_poem_def findById_def Let_def
        or_else_def truthy_def poem_saves_def max_likes_def)
  show ?thesis
    using a b put_poem_frame [OF a] by simp
qed

section \<open>Creating a comment\<close>
















section \<open>Listing the comments of a poem\<close>

lemma populate_ids:
  "map fst (populate cs ids) = filter (\<lambda>r. findById cs r \<noteq> None) ids"
  by (induction ids) (auto simp: populate_def List.map_filter_simps split: option.split)

lemma populate_docs:
  "(r, c) \<in> set (populate cs ids) \<Longrightarrow> findById cs r = Some c"
  by (induction ids) (auto simp: populate_def List.map_filter_simps split: option.splits)

text \<open>
  C8. The comments query of a poem answers with exactly the stored comments of that poem
  whose parent is null, each as often as it is stored, in ascending order of creation
  time. Each entry carries, for its reply ids, the stored documents that the ids name, in
  the order of the ids; the replies of those documents stay ids, so the expansion is one
  level deep. No entry of the listing has a parent: a reply is never listed at the top
  level.
\<close>

theorem comments_listing:
  "\<exists>vs. get_poem_comments d i = (200, CommentDocs vs) \<and>
     mset (map (\<lambda>v. (pc_id v, pc_comment v)) vs) =
       mset (filter (\<lambda>(k, c). poem c = i \<and> parent c = None) (comments d)) \<and>
     sorted (map (\<lambda>v. comment_createdAt (pc_comment v)) vs) \<and>
     (\<forall>v \<in> set vs. poem (pc_comment v) = i \<and> parent (pc_comment v) = None \<and>
        map fst (pc_replies v) =
          filter (\<lambda>r. findById (comments d) r \<noteq> None) (replies (pc_comment v)) \<and>
        (\<forall>(r, c) \<in> set (pc_replies v). findById (comments d) r = Some c))"
proof -
  let ?top = "find_docs (\<lambda>c. poem c = i \<and> parent c = None) (comments d)"
  let ?sorted = "sort_key (\<lambda>(k, c). comment_createdAt c) ?top"
  let ?view = "\<lambda>(k, c). \<lparr>pc_id = k, pc_comment = c, pc_replies = populate (comments d) (replies c)\<rparr>"
  let ?vs = "map ?view ?sorted"
  have r: "get_poem_comments d i = (200, CommentDocs ?vs)"
    by (simp add: get_poem_comments_def)
  have ids: "map (\<lambda>v. (pc_id v, pc_comment v)) ?vs = ?sorted"
    by (simp add: comp_def case_prod_beta)
  have m: "mset (map (\<lambda>v. (pc_id v, pc_comment v)) ?vs) =
      mset (filter (\<lambda>(k, c). poem c = i \<and> parent c = None) (comments d))"
    unfolding ids by (simp add: find_docs_def)
  have "map (\<lambda>v. comment_createdAt (pc_comment v)) ?vs = map (\<lambda>(k, c). comment_createdAt c) ?sorted"
    by (simp add: comp_def case_prod_beta)
  then have s: "sorted (map (\<lambda>v. comment_createdAt (pc_comment v)) ?vs)"
    by (simp only: sorted_sort_key)
  have e: "\<forall>v \<in> set ?vs. poem (pc_comment v) = i \<and> parent (pc_comment v) = None \<and>
        map fst (pc_replies v) =
          filter (\<lambda>r. findById (comments d) r \<noteq> None) (replies (pc_comment v)) \<and>
        (\<forall>(r, c) \<in> set (pc_replies v). findById (comments d) r = Some c)"
    by (auto simp: find_docs_def populate_ids dest: populate_docs)
  show ?thesis
    using r m s e by blast
qed

lemma sample_listing:
  "get_poem_comments (sample_db\<lparr>comments := sample_thread\<rparr>) 10 =
     (200, CommentDocs
        [\<lparr>pc_id = 20, pc_comment = sample_comment 10 None [21] 5,
          pc_replies = [(21, sample_comment 10 (Some 20) [] 6)]\<rparr>,
         \<lparr>pc_id = 30, pc_comment = sample_comment 10 None [] 9, pc_replies = []\<rparr>])"
  by (simp add: get_poem_comments_def find_docs_def populate_def sample_thread_def
      sample_comment_def findById_def List.map_filter_simps)

theorem comments_listing_witness:
  "\<exists>vs. get_poem_comments (sample_db\<lparr>comments := sample_thread\<rparr>) 10 = (200, CommentDocs vs) \<and>
     map pc_id vs = [20, 30] \<and>
     map (map fst \<circ> pc_replies) vs = [[21], []] \<and>
     sorted (map (\<lambda>v. comment_createdAt (pc_comment v)) vs) \<and>
     (\<forall>v \<in> set vs. poem (pc_comment v) = 10 \<and> parent (pc_comment v) = None)"
  using comments_listing [of "sample_db\<lparr>comments := sample_thread\<rparr>" 10]
  by (auto simp: sample_listing)

section \<open>Listing and searching poems: filters, order, window\<close>





lemma starts_with_ci_iff:
  "starts_with_ci s t \<longleftrightarrow> (\<exists>ys. map lower t = map lower s @ ys)"
  by (induction s t rule: starts_with_ci.induct) auto

lemma contains_ci_iff:
  "contains_ci s t \<longleftrightarrow> (\<exists>xs ys. map lower t = xs @ map lower s @ ys)"
proof (induction t)
  case Nil
  then show ?case by (auto simp: starts_with_ci_iff)
next
  case (Cons y t)
  show ?case
  proof
    assume "contains_ci s (y # t)"
    then consider "starts_with_ci s (y # t)" | "contains_ci s t" by auto
    then show "\<exists>xs ys. map lower (y # t) = xs @ map lower s @ ys"
    proof cases
      case 1
      then obtain ys where "map lower (y # t) = map lower s @ ys"
        by (auto simp: starts_with_ci_iff)
      then have "map lower (y # t) = [] @ map lower s @ ys" by simp
      then show ?thesis by blast
    next
      case 2
      then obtain xs ys where "map lower t = xs @ map lower s @ ys"
        using Cons.IH by blast
      then have "map lower (y # t) = (lower y # xs) @ map lower s @ ys" by simp
      then show ?thesis by blast
    qed
  next
    assume "\<exists>xs ys. map lower (y # t) = xs @ map lower s @ ys"
    then obtain xs ys where e: "map lower (y # t) = xs @ map lower s @ ys" by blast
    show "contains_ci s (y # t)"
    proof (cases xs)
      case Nil
      with e have "starts_with_ci s (y # t)"
        by (auto simp: starts_with_ci_iff)
      then show ?thesis by simp
    next
      case (Cons x xs')
      with e have "map lower t = xs' @ map lower s @ ys" by simp
      then have "contains_ci s t" using Cons.IH by blast
      then show ?thesis by simp
    qed
  qed
qed











end
